theory Spec2Isabelle
  imports Complex_Main
begin

section \<open>Transit event detection of \<^verbatim>\<open>vedic_transits.py\<close>\<close>

text \<open>
  The development embeds the functions \<^verbatim>\<open>get_planet_data\<close>, \<^verbatim>\<open>get_sign\<close> and
  \<^verbatim>\<open>find_events\<close> of \<^verbatim>\<open>src/vedic_transits.py\<close>.

  Conventions of the embedding:
  \<^item> Julian days, longitudes and speeds are Python floats in the source. They are modelled
    as \<^typ>\<open>real\<close>: every arithmetic operation is exact, the rounding of IEEE doubles is
    not modelled. The step sizes \<open>0.25\<close> and \<open>0.04\<close> and the offset \<open>0.0001\<close> are the
    exact decimal fractions. Infinities and NaN are not values of the model.
  \<^item> The ephemeris call \<^verbatim>\<open>swe.calc_ut(jd, body, flags)\<close> belongs to an external library.
    It is a parameter of the model: a function from a Julian day and a body to the pair
    (longitude, speed in longitude), that is, components 0 and 3 of the tuple the library
    returns. It is taken to be total; an exception raised by the library is not modelled.
  \<^item> Every ephemeris call is recorded in a call log that the functions pass along, so
    that statements about which queries are issued can be made.
\<close>

subsection \<open>Data\<close>

text \<open>
  The bodies of the list \<^verbatim>\<open>PLANETS\<close>, and the string \<^verbatim>\<open>"KETU"\<close> that \<^verbatim>\<open>main\<close> appends.
\<close>

datatype planet_id = SUN | MOON | MARS | MERCURY | JUPITER | VENUS | SATURN | MEAN_NODE | KETU

type_synonym calc_ut = "real \<Rightarrow> planet_id \<Rightarrow> real \<times> real"

type_synonym call_log = "(real \<times> planet_id) list"

text \<open>The dictionaries that \<^verbatim>\<open>find_events\<close> appends to its list.\<close>

record event =
  jd :: real
  sign :: int
  retro :: bool
  speed :: real

subsection \<open>Python arithmetic\<close>

text \<open>\<^verbatim>\<open>int(x)\<close> on a float truncates towards zero.\<close>

definition py_int :: "real \<Rightarrow> int" where
  "py_int x = (if 0 \<le> x then \<lfloor>x\<rfloor> else \<lceil>x\<rceil>)"

text \<open>\<^verbatim>\<open>x % m\<close> on floats: the result takes the sign of the divisor.\<close>

definition py_mod :: "real \<Rightarrow> real \<Rightarrow> real" where
  "py_mod x m = x - m * of_int \<lfloor>x / m\<rfloor>"

subsection \<open>Samples and their classification\<close>

text \<open>
  \<^verbatim>\<open>get_planet_data(jd, planet_id)\<close>: the triple (longitude, speed, is_retro). For Ketu the
  mean node is queried and its longitude is turned by 180 degrees. The function is given
  in two parts: \<open>planet_data\<close> is the triple it returns, and \<open>get_planet_data\<close> pairs
  that triple with the call log, extended by the one ephemeris call made.
\<close>

definition planet_data :: "calc_ut \<Rightarrow> real \<Rightarrow> planet_id \<Rightarrow> real \<times> real \<times> bool" where
  "planet_data swe at_jd planet_id =
     (if planet_id = KETU then
        (let (rahu_lon, rahu_speed) = swe at_jd MEAN_NODE;
             ketu_lon = py_mod (rahu_lon + 180) 360;
             is_retro = (rahu_speed < 0)
         in (ketu_lon, rahu_speed, is_retro))
      else
        (let (lon, spd) = swe at_jd planet_id;
             is_retro = (spd < 0)
         in (lon, spd, is_retro)))"

text \<open>The body that is passed to the ephemeris for a given \<^verbatim>\<open>planet_id\<close>.\<close>

definition queried_body :: "planet_id \<Rightarrow> planet_id" where
  "queried_body planet_id = (if planet_id = KETU then MEAN_NODE else planet_id)"

definition get_planet_data ::
  "calc_ut \<Rightarrow> real \<Rightarrow> planet_id \<Rightarrow> call_log \<Rightarrow> (real \<times> real \<times> bool) \<times> call_log" where
  "get_planet_data swe at_jd planet_id clog =
     (planet_data swe at_jd planet_id, clog @ [(at_jd, queried_body planet_id)])"

text \<open>\<^verbatim>\<open>get_sign(lon)\<close> is \<^verbatim>\<open>int(lon / 30) + 1\<close>.\<close>

definition get_sign :: "real \<Rightarrow> int" where
  "get_sign lon = py_int (lon / 30) + 1"

subsection \<open>The refinement loop\<close>

text \<open>
  The variables of the bisection in \<^verbatim>\<open>find_events\<close>: \<^verbatim>\<open>low\<close>, \<^verbatim>\<open>high\<close>, \<^verbatim>\<open>found_jd\<close>, and
  the call log.
\<close>

record refine_state =
  low :: real
  high :: real
  found_jd :: real
  ref_calls :: call_log

text \<open>
  The test \<^verbatim>\<open>match_prev\<close> of the source, for a sample with sign \<open>m_sign\<close> and motion
  flag \<open>m_retro\<close>.
\<close>

definition match_prev :: "bool \<Rightarrow> bool \<Rightarrow> int \<Rightarrow> bool \<Rightarrow> int \<Rightarrow> bool \<Rightarrow> bool" where
  "match_prev sign_changed motion_changed prev_sign prev_retro m_sign m_retro =
     (let m = (if sign_changed then m_sign = prev_sign else True)
      in if motion_changed then m \<and> (m_retro = prev_retro) else m)"

text \<open>One pass through the body of \<^verbatim>\<open>for _ in range(20)\<close>.\<close>

definition refine_step ::
  "calc_ut \<Rightarrow> planet_id \<Rightarrow> bool \<Rightarrow> bool \<Rightarrow> int \<Rightarrow> bool \<Rightarrow> refine_state \<Rightarrow> refine_state" where
  "refine_step swe planet_id sign_changed motion_changed prev_sign prev_retro r =
     (let mid = (low r + high r) / 2;
          ((m_lon, m_speed, m_retro), clog') = get_planet_data swe mid planet_id (ref_calls r);
          m_sign = get_sign m_lon
      in if match_prev sign_changed motion_changed prev_sign prev_retro m_sign m_retro
         then r\<lparr>low := mid, ref_calls := clog'\<rparr>
         else r\<lparr>high := mid, found_jd := mid, ref_calls := clog'\<rparr>)"

fun refine_loop ::
  "nat \<Rightarrow> calc_ut \<Rightarrow> planet_id \<Rightarrow> bool \<Rightarrow> bool \<Rightarrow> int \<Rightarrow> bool \<Rightarrow> refine_state \<Rightarrow> refine_state" where
  "refine_loop 0 swe planet_id sign_changed motion_changed prev_sign prev_retro r = r"
| "refine_loop (Suc n) swe planet_id sign_changed motion_changed prev_sign prev_retro r =
     refine_loop n swe planet_id sign_changed motion_changed prev_sign prev_retro
       (refine_step swe planet_id sign_changed motion_changed prev_sign prev_retro r)"

text \<open>
  The refinement of one bracket: \<^verbatim>\<open>low = prev_jd\<close>, \<^verbatim>\<open>high = scan_jd\<close>,
  \<^verbatim>\<open>found_jd = high\<close>, then twenty passes.
\<close>

definition refine ::
  "calc_ut \<Rightarrow> planet_id \<Rightarrow> bool \<Rightarrow> bool \<Rightarrow> int \<Rightarrow> bool \<Rightarrow> real \<Rightarrow> real \<Rightarrow> call_log
     \<Rightarrow> refine_state" where
  "refine swe planet_id sign_changed motion_changed prev_sign prev_retro prev_jd next_jd clog =
     refine_loop 20 swe planet_id sign_changed motion_changed prev_sign prev_retro
       \<lparr>low = prev_jd, high = next_jd, found_jd = next_jd, ref_calls = clog\<rparr>"

subsection \<open>The scan loop\<close>

record scan_state =
  scan_jd :: real
  curr_lon :: real
  curr_speed :: real
  curr_retro :: bool
  curr_sign :: int
  events :: "event list"
  calls :: call_log

definition step_days :: "planet_id \<Rightarrow> real" where
  "step_days planet_id = (if planet_id = MOON then 0.04 else 0.25)"

text \<open>One pass through the body of \<^verbatim>\<open>while scan_jd < end_jd\<close>.\<close>

definition scan_step :: "calc_ut \<Rightarrow> planet_id \<Rightarrow> real \<Rightarrow> scan_state \<Rightarrow> scan_state" where
  "scan_step swe planet_id end_jd s =
     (let prev_jd = scan_jd s;
          prev_retro = curr_retro s;
          prev_sign = curr_sign s;
          next_jd = (if scan_jd s + step_days planet_id > end_jd then end_jd
                     else scan_jd s + step_days planet_id);
          ((c_lon, c_speed, c_retro), clog1) = get_planet_data swe next_jd planet_id (calls s);
          c_sign = get_sign c_lon;
          sign_changed = (c_sign \<noteq> prev_sign);
          motion_changed = (c_retro \<noteq> prev_retro)
      in if sign_changed \<or> motion_changed then
           (let r = refine swe planet_id sign_changed motion_changed prev_sign prev_retro
                      prev_jd next_jd clog1;
                ((f_lon, f_speed, f_retro), clog2) =
                   get_planet_data swe (found_jd r) planet_id (ref_calls r);
                f_sign = get_sign f_lon
            in \<lparr>scan_jd = found_jd r + 0.0001,
                curr_lon = f_lon, curr_speed = f_speed, curr_retro = f_retro,
                curr_sign = f_sign,
                events = events s @
                  [\<lparr>jd = found_jd r, sign = f_sign, retro = f_retro, speed = f_speed\<rparr>],
                calls = clog2\<rparr>)
         else
           \<lparr>scan_jd = next_jd,
            curr_lon = c_lon, curr_speed = c_speed, curr_retro = c_retro, curr_sign = c_sign,
            events = events s, calls = clog1\<rparr>)"

subsection \<open>Names for the parts of one scan step\<close>

text \<open>
  The definitions of this subsection add nothing to the program. They name expressions
  that occur inside \<^verbatim>\<open>find_events\<close>, so that the lemmas can speak about them:
  the value of \<^verbatim>\<open>match_prev\<close> for the sample taken at an instant \<open>t\<close>; the clamped next scan
  position; the sign, speed and flag of the sample at \<open>t\<close>; the refinement that a scan step
  runs; and the test \<^verbatim>\<open>sign_changed or motion_changed\<close>. The lemmas \<open>refine_step_eq\<close> and
  \<open>scan_step_eq\<close> below relate them to the loop bodies as written above.
\<close>

definition matches_at ::
  "calc_ut \<Rightarrow> planet_id \<Rightarrow> bool \<Rightarrow> bool \<Rightarrow> int \<Rightarrow> bool \<Rightarrow> real \<Rightarrow> bool" where
  "matches_at swe planet_id sign_changed motion_changed prev_sign prev_retro t =
     (case planet_data swe t planet_id of (m_lon, m_speed, m_retro) \<Rightarrow>
        match_prev sign_changed motion_changed prev_sign prev_retro (get_sign m_lon) m_retro)"

definition next_sample :: "planet_id \<Rightarrow> real \<Rightarrow> scan_state \<Rightarrow> real" where
  "next_sample planet_id end_jd s =
     (if scan_jd s + step_days planet_id > end_jd then end_jd
      else scan_jd s + step_days planet_id)"

definition sign_at :: "calc_ut \<Rightarrow> planet_id \<Rightarrow> real \<Rightarrow> int" where
  "sign_at swe planet_id t = get_sign (fst (planet_data swe t planet_id))"

definition speed_at :: "calc_ut \<Rightarrow> planet_id \<Rightarrow> real \<Rightarrow> real" where
  "speed_at swe planet_id t = fst (snd (planet_data swe t planet_id))"

definition retro_at :: "calc_ut \<Rightarrow> planet_id \<Rightarrow> real \<Rightarrow> bool" where
  "retro_at swe planet_id t = snd (snd (planet_data swe t planet_id))"

definition bracket_refine :: "calc_ut \<Rightarrow> planet_id \<Rightarrow> real \<Rightarrow> scan_state \<Rightarrow> refine_state" where
  "bracket_refine swe planet_id end_jd s =
     refine swe planet_id
       (sign_at swe planet_id (next_sample planet_id end_jd s) \<noteq> curr_sign s)
       (retro_at swe planet_id (next_sample planet_id end_jd s) \<noteq> curr_retro s)
       (curr_sign s) (curr_retro s) (scan_jd s) (next_sample planet_id end_jd s)
       (calls s @ [(next_sample planet_id end_jd s, queried_body planet_id)])"

definition state_changed :: "calc_ut \<Rightarrow> planet_id \<Rightarrow> real \<Rightarrow> scan_state \<Rightarrow> bool" where
  "state_changed swe planet_id end_jd s =
     (sign_at swe planet_id (next_sample planet_id end_jd s) \<noteq> curr_sign s \<or>
      retro_at swe planet_id (next_sample planet_id end_jd s) \<noteq> curr_retro s)"

subsection \<open>Synthetic ephemerides for concrete runs\<close>

text \<open>
  A body that jumps from 10 to 40 degrees at \<open>t = 1/8\<close> with constant direct motion; a body
  that makes the same jump and turns retrograde at \<open>t = 3/16\<close>; a body that jumps to 40
  degrees at \<open>1/8\<close>, turns retrograde at \<open>0.12505\<close> and jumps to 70 degrees at \<open>3/16\<close>; and
  an ephemeris that agrees with the first one for the Sun only. The window bounds used with them and the instant
  \<open>1/8\<close> are dyadic, so the midpoints that the source computes for the first bracket are
  exact in binary floating point. Scan positions after an event carry the offset
  \<open>0.0001\<close>, which is not dyadic; what is stated about later events is limited to their
  number, their state, and a bound on their time.
\<close>

definition one_change :: calc_ut where
  "one_change t b = (if t < 1/8 then 10 else 40, 1)"

definition two_axes :: calc_ut where
  "two_axes t b = (if t < 1/8 then 10 else 40, if t < 3/16 then 1 else -1)"

definition three_changes :: calc_ut where
  "three_changes t b =
     (if t < 1/8 then 10 else if t < 3/16 then 40 else 70,
      if t < 12505/100000 then 1 else -1)"

definition sun_only :: calc_ut where
  "sun_only t b = (if b = SUN then one_change t b else (0, 0))"

subsection \<open>Progress of the refinement and of the scan\<close>

lemma refine_step_eq:
  "refine_step swe p sc mc ps pr r =
     (if matches_at swe p sc mc ps pr ((low r + high r) / 2)
      then r\<lparr>low := (low r + high r) / 2,
             ref_calls := ref_calls r @ [((low r + high r) / 2, queried_body p)]\<rparr>
      else r\<lparr>high := (low r + high r) / 2, found_jd := (low r + high r) / 2,
             ref_calls := ref_calls r @ [((low r + high r) / 2, queried_body p)]\<rparr>)"
  by (simp add: refine_step_def matches_at_def get_planet_data_def Let_def split: prod.splits)

lemma refine_loop_found:
  "found_jd r = high r \<Longrightarrow>
   found_jd (refine_loop n swe p sc mc ps pr r) = high (refine_loop n swe p sc mc ps pr r)"
  by (induction n arbitrary: r) (simp_all add: refine_step_eq)

lemma refine_loop_order:
  "low r < high r \<Longrightarrow>
   low r \<le> low (refine_loop n swe p sc mc ps pr r) \<and>
   low (refine_loop n swe p sc mc ps pr r) < high (refine_loop n swe p sc mc ps pr r) \<and>
   high (refine_loop n swe p sc mc ps pr r) \<le> high r"
proof (induction n arbitrary: r)
  case 0
  then show ?case by simp
next
  case (Suc n)
  let ?r = "refine_step swe p sc mc ps pr r"
  have "low ?r < high ?r" "low r \<le> low ?r" "high ?r \<le> high r"
    using Suc.prems by (simp_all add: refine_step_eq)
  with Suc.IH[of ?r] show ?case by force
qed

lemma refine_loop_width:
  "high (refine_loop n swe p sc mc ps pr r) - low (refine_loop n swe p sc mc ps pr r)
     = (high r - low r) / 2 ^ n"
proof (induction n arbitrary: r)
  case 0
  then show ?case by simp
next
  case (Suc n)
  let ?r = "refine_step swe p sc mc ps pr r"
  have "high ?r - low ?r = (high r - low r) / 2"
    by (simp add: refine_step_eq field_simps)
  with Suc.IH[of ?r] show ?case by simp
qed

lemma refine_loop_calls:
  "length (ref_calls (refine_loop n swe p sc mc ps pr r)) = length (ref_calls r) + n"
  by (induction n arbitrary: r) (simp_all add: refine_step_eq)

lemma refine_loop_high_differs:
  "\<not> matches_at swe p sc mc ps pr (high r) \<Longrightarrow>
   \<not> matches_at swe p sc mc ps pr (high (refine_loop n swe p sc mc ps pr r))"
  by (induction n arbitrary: r) (simp_all add: refine_step_eq)

lemma refine_loop_low_matches:
  "low (refine_loop n swe p sc mc ps pr r) = low r \<or>
   matches_at swe p sc mc ps pr (low (refine_loop n swe p sc mc ps pr r))"
proof (induction n arbitrary: r)
  case 0
  then show ?case by simp
next
  case (Suc n)
  let ?r = "refine_step swe p sc mc ps pr r"
  have "low ?r = low r \<or> matches_at swe p sc mc ps pr (low ?r)"
    by (simp add: refine_step_eq)
  with Suc.IH[of ?r] show ?case by auto
qed

lemma scan_step_eq:
  "scan_step swe p end_jd s =
     (if state_changed swe p end_jd s then
        \<lparr>scan_jd = found_jd (bracket_refine swe p end_jd s) + 0.0001,
         curr_lon = fst (planet_data swe (found_jd (bracket_refine swe p end_jd s)) p),
         curr_speed = speed_at swe p (found_jd (bracket_refine swe p end_jd s)),
         curr_retro = retro_at swe p (found_jd (bracket_refine swe p end_jd s)),
         curr_sign = sign_at swe p (found_jd (bracket_refine swe p end_jd s)),
         events = events s @
           [\<lparr>jd = found_jd (bracket_refine swe p end_jd s),
             sign = sign_at swe p (found_jd (bracket_refine swe p end_jd s)),
             retro = retro_at swe p (found_jd (bracket_refine swe p end_jd s)),
             speed = speed_at swe p (found_jd (bracket_refine swe p end_jd s))\<rparr>],
         calls = ref_calls (bracket_refine swe p end_jd s) @
           [(found_jd (bracket_refine swe p end_jd s), queried_body p)]\<rparr>
      else
        \<lparr>scan_jd = next_sample p end_jd s,
         curr_lon = fst (planet_data swe (next_sample p end_jd s) p),
         curr_speed = speed_at swe p (next_sample p end_jd s),
         curr_retro = retro_at swe p (next_sample p end_jd s),
         curr_sign = sign_at swe p (next_sample p end_jd s),
         events = events s,
         calls = calls s @ [(next_sample p end_jd s, queried_body p)]\<rparr>)"
  unfolding scan_step_def state_changed_def bracket_refine_def sign_at_def retro_at_def
    speed_at_def get_planet_data_def next_sample_def[symmetric] Let_def
  by (simp split: prod.splits)

lemma refine_progress:
  "prev_jd < next_jd \<Longrightarrow>
   prev_jd < found_jd (refine swe p sc mc ps pr prev_jd next_jd clog) \<and>
   found_jd (refine swe p sc mc ps pr prev_jd next_jd clog) \<le> next_jd"
  using refine_loop_order[of "\<lparr>low = prev_jd, high = next_jd, found_jd = next_jd, ref_calls = clog\<rparr>"
      20 swe p sc mc ps pr]
    refine_loop_found[of "\<lparr>low = prev_jd, high = next_jd, found_jd = next_jd, ref_calls = clog\<rparr>"
      20 swe p sc mc ps pr]
  by (simp add: refine_def)

lemma step_days_pos: "0.04 \<le> step_days p"
  by (simp add: step_days_def)

lemma next_sample_bounds:
  "scan_jd s < end_jd \<Longrightarrow>
   scan_jd s < next_sample p end_jd s \<and> next_sample p end_jd s \<le> end_jd \<and>
   (end_jd \<le> next_sample p end_jd s \<or> scan_jd s + 0.0001 \<le> next_sample p end_jd s)"
  using step_days_pos[of p] by (simp add: next_sample_def)

lemma bracket_refine_bounds:
  "scan_jd s < end_jd \<Longrightarrow>
   scan_jd s < found_jd (bracket_refine swe p end_jd s) \<and>
   found_jd (bracket_refine swe p end_jd s) \<le> next_sample p end_jd s"
  unfolding bracket_refine_def using next_sample_bounds[of s end_jd p]
  by (intro refine_progress) simp

lemma scan_step_progress:
  assumes "scan_jd s < end_jd"
  shows "end_jd \<le> scan_jd (scan_step swe p end_jd s) \<or>
         scan_jd s + 0.0001 \<le> scan_jd (scan_step swe p end_jd s)"
  using next_sample_bounds[OF assms, of p] bracket_refine_bounds[OF assms, of swe p]
  by (simp add: scan_step_eq)

subsection \<open>The loop and the builder\<close>

function scan_loop :: "calc_ut \<Rightarrow> planet_id \<Rightarrow> real \<Rightarrow> scan_state \<Rightarrow> scan_state" where
  "scan_loop swe planet_id end_jd s =
     (if scan_jd s < end_jd then scan_loop swe planet_id end_jd (scan_step swe planet_id end_jd s)
      else s)"
  by pat_completeness auto
termination
proof (relation "measure (\<lambda>(swe, planet_id, end_jd, s). nat \<lceil>(end_jd - scan_jd s) * 10000\<rceil>)")
  show "wf (measure (\<lambda>(swe, planet_id, end_jd, s). nat \<lceil>(end_jd - scan_jd s) * 10000\<rceil>))"
    by simp
next
  fix swe :: calc_ut and planet_id end_jd and s :: scan_state
  assume lt: "scan_jd s < end_jd"
  let ?s = "scan_step swe planet_id end_jd s"
  have pos: "0 < \<lceil>(end_jd - scan_jd s) * 10000\<rceil>"
    using lt by (simp add: ceiling_less_iff)
  from scan_step_progress[OF lt, of swe planet_id]
  have "\<lceil>(end_jd - scan_jd ?s) * 10000\<rceil> < \<lceil>(end_jd - scan_jd s) * 10000\<rceil>"
  proof
    assume "end_jd \<le> scan_jd ?s"
    then have "(end_jd - scan_jd ?s) * 10000 \<le> 0" by simp
    then have "\<lceil>(end_jd - scan_jd ?s) * 10000\<rceil> \<le> 0" by (simp add: ceiling_le_iff)
    with pos show ?thesis by linarith
  next
    assume "scan_jd s + 0.0001 \<le> scan_jd ?s"
    then have "(end_jd - scan_jd ?s) * 10000 \<le> (end_jd - scan_jd s) * 10000 - 1" by simp
    then have "\<lceil>(end_jd - scan_jd ?s) * 10000\<rceil> \<le> \<lceil>(end_jd - scan_jd s) * 10000 - 1\<rceil>"
      by (rule ceiling_mono)
    then show ?thesis by simp
  qed
  with pos show "((swe, planet_id, end_jd, ?s), (swe, planet_id, end_jd, s))
        \<in> measure (\<lambda>(swe, planet_id, end_jd, s). nat \<lceil>(end_jd - scan_jd s) * 10000\<rceil>)"
    by simp
qed

declare scan_loop.simps [simp del]

lemma scan_loop_step:
  "scan_jd s < end_jd \<Longrightarrow>
   scan_loop swe p end_jd s = scan_loop swe p end_jd (scan_step swe p end_jd s)"
  by (subst scan_loop.simps) simp

lemma scan_loop_stop:
  "\<not> scan_jd s < end_jd \<Longrightarrow> scan_loop swe p end_jd s = s"
  by (subst scan_loop.simps) simp

text \<open>
  \<^verbatim>\<open>find_events(planet_id, start_jd, end_jd)\<close>. The result is the list of events, paired
  with the log of the ephemeris calls made. The closing \<^verbatim>\<open>if events[-1]['jd'] < end_jd: pass\<close>
  of the source has no effect.
\<close>

definition find_events :: "calc_ut \<Rightarrow> planet_id \<Rightarrow> real \<Rightarrow> real \<Rightarrow> event list \<times> call_log" where
  "find_events swe planet_id start_jd end_jd =
     (let ((c_lon, c_speed, c_retro), clog) = get_planet_data swe start_jd planet_id [];
          c_sign = get_sign c_lon;
          s = scan_loop swe planet_id end_jd
                \<lparr>scan_jd = start_jd,
                 curr_lon = c_lon, curr_speed = c_speed, curr_retro = c_retro,
                 curr_sign = c_sign,
                 events = [\<lparr>jd = start_jd, sign = c_sign, retro = c_retro, speed = c_speed\<rparr>],
                 calls = clog\<rparr>
      in (events s, calls s))"

text \<open>The state in which \<^verbatim>\<open>find_events\<close> enters its loop.\<close>

definition initial_state :: "calc_ut \<Rightarrow> planet_id \<Rightarrow> real \<Rightarrow> scan_state" where
  "initial_state swe planet_id start_jd =
     \<lparr>scan_jd = start_jd,
      curr_lon = fst (planet_data swe start_jd planet_id),
      curr_speed = speed_at swe planet_id start_jd,
      curr_retro = retro_at swe planet_id start_jd,
      curr_sign = sign_at swe planet_id start_jd,
      events = [\<lparr>jd = start_jd, sign = sign_at swe planet_id start_jd,
                 retro = retro_at swe planet_id start_jd,
                 speed = speed_at swe planet_id start_jd\<rparr>],
      calls = [(start_jd, queried_body planet_id)]\<rparr>"

text \<open>
  The invariant of the scan loop: the events recorded so far are strictly increasing in
  time, adjacent events differ in their state, none lies after the scan position or after
  the window, the loop variables \<^verbatim>\<open>curr_sign\<close> and \<^verbatim>\<open>curr_retro\<close> hold the state of
  the last event, and every event carries the sample taken at its own time.
\<close>

definition scan_inv :: "calc_ut \<Rightarrow> planet_id \<Rightarrow> real \<Rightarrow> real \<Rightarrow> scan_state \<Rightarrow> bool" where
  "scan_inv swe planet_id start_jd end_jd s \<longleftrightarrow>
     events s \<noteq> [] \<and>
     jd (hd (events s)) = start_jd \<and>
     sorted_wrt (<) (map jd (events s)) \<and>
     distinct_adj (map (\<lambda>e. (sign e, retro e)) (events s)) \<and>
     (\<forall>e \<in> set (events s). jd e \<le> scan_jd s \<and> jd e \<le> max start_jd end_jd) \<and>
     sign (last (events s)) = curr_sign s \<and>
     retro (last (events s)) = curr_retro s \<and>
     (\<forall>e \<in> set (events s).
        sign e = sign_at swe planet_id (jd e) \<and>
        retro e = retro_at swe planet_id (jd e) \<and>
        speed e = speed_at swe planet_id (jd e))"

subsection \<open>The invariant of the scan loop\<close>

lemma matches_at_iff:
  "matches_at swe p sc mc ps pr t \<longleftrightarrow>
     (sc \<longrightarrow> sign_at swe p t = ps) \<and> (mc \<longrightarrow> retro_at swe p t = pr)"
  by (auto simp add: matches_at_def match_prev_def sign_at_def retro_at_def Let_def
      split: prod.splits)

lemma refine_found_differs:
  assumes "\<not> matches_at swe p sc mc ps pr next_jd"
  shows "\<not> matches_at swe p sc mc ps pr (found_jd (refine swe p sc mc ps pr prev_jd next_jd clog))"
  using refine_loop_high_differs[of swe p sc mc ps pr
      "\<lparr>low = prev_jd, high = next_jd, found_jd = next_jd, ref_calls = clog\<rparr>" 20]
    refine_loop_found[of "\<lparr>low = prev_jd, high = next_jd, found_jd = next_jd, ref_calls = clog\<rparr>"
      20 swe p sc mc ps pr] assms
  by (simp add: refine_def)

lemma bracket_refine_differs:
  assumes "state_changed swe p end_jd s"
  shows "sign_at swe p (found_jd (bracket_refine swe p end_jd s)) \<noteq> curr_sign s \<or>
         retro_at swe p (found_jd (bracket_refine swe p end_jd s)) \<noteq> curr_retro s"
proof -
  let ?n = "next_sample p end_jd s"
  let ?sc = "sign_at swe p ?n \<noteq> curr_sign s"
  let ?mc = "retro_at swe p ?n \<noteq> curr_retro s"
  have "\<not> matches_at swe p ?sc ?mc (curr_sign s) (curr_retro s) ?n"
    using assms by (auto simp add: matches_at_iff state_changed_def)
  then have "\<not> matches_at swe p ?sc ?mc (curr_sign s) (curr_retro s)
               (found_jd (bracket_refine swe p end_jd s))"
    unfolding bracket_refine_def by (rule refine_found_differs)
  then show ?thesis
    by (auto simp add: matches_at_iff)
qed

lemma scan_step_inv:
  assumes inv: "scan_inv swe p start_jd end_jd s" and lt: "scan_jd s < end_jd"
  shows "scan_inv swe p start_jd end_jd (scan_step swe p end_jd s)"
proof (cases "state_changed swe p end_jd s")
  case False
  have "scan_jd s \<le> next_sample p end_jd s"
    using next_sample_bounds[OF lt, of p] by simp
  with inv False show ?thesis
    by (auto simp add: scan_step_eq scan_inv_def state_changed_def)
next
  case True
  let ?f = "found_jd (bracket_refine swe p end_jd s)"
  have b: "scan_jd s < ?f" "?f \<le> end_jd"
    using bracket_refine_bounds[OF lt, of swe p] next_sample_bounds[OF lt, of p] by simp_all
  have d: "sign_at swe p ?f \<noteq> curr_sign s \<or> retro_at swe p ?f \<noteq> curr_retro s"
    by (rule bracket_refine_differs[OF True])
  let ?e = "\<lparr>jd = ?f, sign = sign_at swe p ?f, retro = retro_at swe p ?f,
             speed = speed_at swe p ?f\<rparr>"
  have ev: "events (scan_step swe p end_jd s) = events s @ [?e]"
    and sj: "scan_jd (scan_step swe p end_jd s) = ?f + 0.0001"
    and cs: "curr_sign (scan_step swe p end_jd s) = sign_at swe p ?f"
    and cr: "curr_retro (scan_step swe p end_jd s) = retro_at swe p ?f"
    using True by (simp_all add: scan_step_eq)
  have ne: "events s \<noteq> []" using inv by (simp add: scan_inv_def)
  have "sorted_wrt (<) (map jd (events s @ [?e]))"
    using inv b by (fastforce simp add: scan_inv_def sorted_wrt_append)
  moreover have "distinct_adj (map (\<lambda>e. (sign e, retro e)) (events s @ [?e]))"
    using inv d ne by (auto simp add: scan_inv_def distinct_adj_append_iff last_map)
  moreover have "\<forall>e \<in> set (events s @ [?e]). jd e \<le> ?f + 0.0001 \<and> jd e \<le> max start_jd end_jd"
    using inv b by (fastforce simp add: scan_inv_def)
  moreover have "\<forall>e \<in> set (events s @ [?e]). sign e = sign_at swe p (jd e) \<and>
        retro e = retro_at swe p (jd e) \<and> speed e = speed_at swe p (jd e)"
    using inv by (simp add: scan_inv_def)
  moreover have "jd (hd (events s @ [?e])) = start_jd"
    using inv ne by (simp add: scan_inv_def)
  ultimately show ?thesis
    unfolding scan_inv_def ev sj cs cr by simp
qed

lemma scan_loop_inv:
  "scan_inv swe p start_jd end_jd s \<Longrightarrow> scan_inv swe p start_jd end_jd (scan_loop swe p end_jd s)"
proof (induction swe p end_jd s rule: scan_loop.induct)
  case (1 swe p end_jd s)
  show ?case
  proof (cases "scan_jd s < end_jd")
    case True
    then show ?thesis
      using "1.IH"[OF True scan_step_inv[OF "1.prems" True]] by (simp add: scan_loop_step)
  next
    case False
    then show ?thesis using "1.prems" by (simp add: scan_loop_stop)
  qed
qed

lemma find_events_eq:
  "find_events swe p start_jd end_jd =
     (events (scan_loop swe p end_jd (initial_state swe p start_jd)),
      calls (scan_loop swe p end_jd (initial_state swe p start_jd)))"
  by (simp add: find_events_def initial_state_def get_planet_data_def sign_at_def retro_at_def
      speed_at_def Let_def split: prod.splits)

lemma initial_inv: "scan_inv swe p start_jd end_jd (initial_state swe p start_jd)"
  by (simp add: scan_inv_def initial_state_def)

lemma find_events_inv:
  "scan_inv swe p start_jd end_jd (scan_loop swe p end_jd (initial_state swe p start_jd))"
  by (rule scan_loop_inv[OF initial_inv])

subsection \<open>Empty windows, convergence of the refinement, partition of the window\<close>

lemma find_events_empty_window:
  assumes "end_jd \<le> start_jd"
  shows "find_events swe p start_jd end_jd =
     ([\<lparr>jd = start_jd, sign = sign_at swe p start_jd, retro = retro_at swe p start_jd,
         speed = speed_at swe p start_jd\<rparr>],
      [(start_jd, queried_body p)])"
proof -
  have "\<not> scan_jd (initial_state swe p start_jd) < end_jd"
    using assms by (simp add: initial_state_def)
  then show ?thesis
    by (simp add: find_events_eq scan_loop_stop) (simp add: initial_state_def)
qed

lemma refine_loop_bracket:
  assumes "low r < c" "c \<le> high r"
    and "\<forall>t. low r < t \<and> t \<le> high r \<longrightarrow> (matches_at swe p sc mc ps pr t \<longleftrightarrow> t < c)"
  shows "low (refine_loop n swe p sc mc ps pr r) < c \<and>
         c \<le> high (refine_loop n swe p sc mc ps pr r)"
  using assms
proof (induction n arbitrary: r)
  case 0
  then show ?case by simp
next
  case (Suc n)
  let ?m = "(low r + high r) / 2"
  let ?r = "refine_step swe p sc mc ps pr r"
  have m: "low r < ?m" "?m \<le> high r"
    using Suc.prems(1,2) by simp_all
  then have mm: "matches_at swe p sc mc ps pr ?m \<longleftrightarrow> ?m < c"
    using Suc.prems(3) by blast
  have 1: "low ?r < c" and 2: "c \<le> high ?r"
    using Suc.prems(1,2) mm by (simp_all add: refine_step_eq)
  have 3: "low r \<le> low ?r" "high ?r \<le> high r"
    using m by (simp_all add: refine_step_eq)
  have "\<forall>t. low ?r < t \<and> t \<le> high ?r \<longrightarrow> (matches_at swe p sc mc ps pr t \<longleftrightarrow> t < c)"
  proof (intro allI impI)
    fix t assume "low ?r < t \<and> t \<le> high ?r"
    with 3 have "low r < t \<and> t \<le> high r" by linarith
    with Suc.prems(3) show "matches_at swe p sc mc ps pr t \<longleftrightarrow> t < c" by blast
  qed
  from Suc.IH[OF 1 2 this] show ?case by simp
qed

lemma refine_converges:
  assumes "prev_jd < c" "c \<le> next_jd"
    and "\<forall>t. prev_jd < t \<and> t \<le> next_jd \<longrightarrow> (matches_at swe p sc mc ps pr t \<longleftrightarrow> t < c)"
  shows "low (refine swe p sc mc ps pr prev_jd next_jd clog) < c \<and>
         c \<le> found_jd (refine swe p sc mc ps pr prev_jd next_jd clog) \<and>
         found_jd (refine swe p sc mc ps pr prev_jd next_jd clog) - c
           < (next_jd - prev_jd) / 2 ^ 20"
proof -
  let ?init = "\<lparr>low = prev_jd, high = next_jd, found_jd = next_jd, ref_calls = clog\<rparr>"
  let ?r = "refine_loop 20 swe p sc mc ps pr ?init"
  have b: "low ?r < c \<and> c \<le> high ?r"
    using assms by (intro refine_loop_bracket) simp_all
  have w: "high ?r - low ?r = (next_jd - prev_jd) / 2 ^ 20"
    using refine_loop_width[where r = ?init and n = 20] by simp
  have f: "found_jd ?r = high ?r"
    by (rule refine_loop_found) simp
  have "high ?r - c < high ?r - low ?r" using b by simp
  with b w f show ?thesis unfolding refine_def by simp
qed

lemma refine_calls:
  "length (ref_calls (refine swe p sc mc ps pr prev_jd next_jd clog)) = length clog + 20"
  unfolding refine_def by (simp add: refine_loop_calls)

lemma refine_found_high:
  "found_jd (refine swe p sc mc ps pr prev_jd next_jd clog)
     = high (refine swe p sc mc ps pr prev_jd next_jd clog)"
  unfolding refine_def by (rule refine_loop_found) simp

text \<open>Partition of a window by a strictly increasing list of instants.\<close>

lemma span_partition:
  fixes ts :: "real list"
  assumes "ts \<noteq> []" "sorted_wrt (<) ts" "hd ts \<le> t" "t \<le> b"
  shows "\<exists>!i. i < length ts \<and> ts ! i \<le> t \<and> (if Suc i < length ts then t < ts ! Suc i else t \<le> b)"
  using assms
proof (induction ts rule: list_nonempty_induct)
  case (single x)
  then show ?case by auto
next
  case (cons x xs)
  let ?P = "\<lambda>ys i. i < length ys \<and> ys ! i \<le> t \<and> (if Suc i < length ys then t < ys ! Suc i else t \<le> b)"
  have sxs: "sorted_wrt (<) xs" using cons.prems(1) by simp
  show ?case
  proof (cases "t < hd xs")
    case True
    have gt: "\<forall>j. j < length xs \<longrightarrow> t < xs ! j"
    proof (intro allI impI)
      fix j assume j: "j < length xs"
      show "t < xs ! j"
      proof (cases j)
        case 0
        then show ?thesis using True cons.hyps by (simp add: hd_conv_nth)
      next
        case (Suc k)
        have "xs ! 0 < xs ! j" using sxs j Suc
          by (simp add: sorted_wrt_iff_nth_less)
        then show ?thesis using True cons.hyps by (simp add: hd_conv_nth)
      qed
    qed
    have P0: "?P (x # xs) 0"
      using True cons.hyps cons.prems by (simp add: hd_conv_nth)
    have "i = 0" if "?P (x # xs) i" for i
    proof (cases i)
      case 0 then show ?thesis .
    next
      case (Suc k)
      with that gt show ?thesis by auto
    qed
    with P0 show ?thesis by blast
  next
    case False
    then have "hd xs \<le> t" by simp
    then have ex: "\<exists>!i. ?P xs i" using cons.IH sxs cons.prems(3) by blast
    then obtain k where k: "?P xs k" and uniq: "\<And>j. ?P xs j \<Longrightarrow> j = k" by blast
    have PS: "?P (x # xs) (Suc k)" using k by simp
    have "i = Suc k" if "?P (x # xs) i" for i
    proof (cases i)
      case 0
      with that False cons.hyps show ?thesis by (simp add: hd_conv_nth)
    next
      case (Suc j)
      have "?P xs j" using that unfolding Suc by (simp split: if_splits)
      with uniq Suc show ?thesis by simp
    qed
    with PS show ?thesis by blast
  qed
qed

lemma span_inside:
  fixes ts :: "real list"
  assumes "sorted_wrt (<) ts" "i < length ts" "ts ! i \<le> t" "last ts \<le> b"
    and "if Suc i < length ts then t < ts ! Suc i else t \<le> b"
  shows "hd ts \<le> t \<and> t \<le> b"
proof -
  have ne: "ts \<noteq> []" using assms(2) by auto
  have "ts ! 0 \<le> ts ! i"
    using assms(1,2) by (cases i) (auto simp add: sorted_wrt_iff_nth_less less_imp_le)
  then have 1: "hd ts \<le> t" using assms(3) ne by (simp add: hd_conv_nth)
  have 2: "t \<le> b"
  proof (cases "Suc i < length ts")
    case True
    then have "ts ! Suc i \<le> ts ! (length ts - 1)"
      using assms(1) by (cases "Suc i = length ts - 1")
        (auto simp add: sorted_wrt_iff_nth_less less_imp_le)
    then have "ts ! Suc i \<le> last ts" using ne by (simp add: last_conv_nth)
    with True assms(4,5) show ?thesis by simp
  next
    case False
    with assms(5) show ?thesis by simp
  qed
  from 1 2 show ?thesis ..
qed

subsection \<open>The result depends on the ephemeris only inside the window\<close>

lemma planet_data_cong:
  "swe t (queried_body p) = swe' t (queried_body p) \<Longrightarrow> planet_data swe t p = planet_data swe' t p"
  by (simp add: planet_data_def queried_body_def split: if_splits)

lemma matches_at_cong:
  "planet_data swe t p = planet_data swe' t p \<Longrightarrow>
   matches_at swe p sc mc ps pr t = matches_at swe' p sc mc ps pr t"
  by (simp add: matches_at_def)

lemma refine_loop_cong:
  assumes "low r < high r"
    and "\<forall>t. low r < t \<and> t < high r \<longrightarrow> planet_data swe t p = planet_data swe' t p"
  shows "refine_loop n swe p sc mc ps pr r = refine_loop n swe' p sc mc ps pr r"
  using assms
proof (induction n arbitrary: r)
  case 0
  then show ?case by simp
next
  case (Suc n)
  let ?m = "(low r + high r) / 2"
  let ?r = "refine_step swe p sc mc ps pr r"
  have m: "low r < ?m" "?m < high r" using Suc.prems(1) by simp_all
  then have "planet_data swe ?m p = planet_data swe' ?m p" using Suc.prems(2) by blast
  then have eq: "refine_step swe' p sc mc ps pr r = ?r"
    by (simp add: refine_step_eq matches_at_cong[of swe _ p swe'])
  have 1: "low ?r < high ?r" and 2: "low r \<le> low ?r" "high ?r \<le> high r"
    using m by (simp_all add: refine_step_eq)
  have "\<forall>t. low ?r < t \<and> t < high ?r \<longrightarrow> planet_data swe t p = planet_data swe' t p"
  proof (intro allI impI)
    fix t assume "low ?r < t \<and> t < high ?r"
    with 2 have "low r < t \<and> t < high r" by linarith
    with Suc.prems(2) show "planet_data swe t p = planet_data swe' t p" by blast
  qed
  from Suc.IH[OF 1 this] show ?case by (simp add: eq)
qed

lemma scan_step_cong:
  assumes lt: "scan_jd s < end_jd"
    and agree: "\<forall>t. scan_jd s < t \<and> t \<le> end_jd \<longrightarrow> planet_data swe t p = planet_data swe' t p"
  shows "scan_step swe p end_jd s = scan_step swe' p end_jd s"
proof -
  let ?n = "next_sample p end_jd s"
  have n: "scan_jd s < ?n" "?n \<le> end_jd"
    using next_sample_bounds[OF lt, of p] by simp_all
  then have dn: "planet_data swe ?n p = planet_data swe' ?n p" using agree by blast
  then have sn: "sign_at swe p ?n = sign_at swe' p ?n" "retro_at swe p ?n = retro_at swe' p ?n"
    "speed_at swe p ?n = speed_at swe' p ?n"
    by (simp_all add: sign_at_def retro_at_def speed_at_def)
  have ch: "state_changed swe p end_jd s = state_changed swe' p end_jd s"
    by (simp add: state_changed_def sn)
  have "\<forall>t. scan_jd s < t \<and> t < ?n \<longrightarrow> planet_data swe t p = planet_data swe' t p"
    using agree n by auto
  then have br: "bracket_refine swe p end_jd s = bracket_refine swe' p end_jd s"
    unfolding bracket_refine_def refine_def sn using n(1)
    by (intro refine_loop_cong) simp_all
  let ?f = "found_jd (bracket_refine swe' p end_jd s)"
  have "scan_jd s < ?f" "?f \<le> end_jd"
    using bracket_refine_bounds[OF lt, of swe' p] n by simp_all
  then have df: "planet_data swe ?f p = planet_data swe' ?f p" using agree by blast
  then have sf: "sign_at swe p ?f = sign_at swe' p ?f" "retro_at swe p ?f = retro_at swe' p ?f"
    "speed_at swe p ?f = speed_at swe' p ?f"
    by (simp_all add: sign_at_def retro_at_def speed_at_def)
  show ?thesis
    unfolding scan_step_eq ch br by (simp add: dn sn df sf)
qed

lemma scan_step_advances:
  assumes "scan_jd s < end_jd"
  shows "end_jd \<le> scan_jd (scan_step swe p end_jd s) \<or>
         scan_jd s < scan_jd (scan_step swe p end_jd s)"
proof -
  have "scan_jd s < scan_jd s + 0.0001" by simp
  with scan_step_progress[OF assms, of swe p] show ?thesis by linarith
qed

lemma scan_loop_cong:
  assumes "\<forall>t. scan_jd s < t \<and> t \<le> end_jd \<longrightarrow> planet_data swe t p = planet_data swe' t p"
  shows "scan_loop swe p end_jd s = scan_loop swe' p end_jd s"
  using assms
proof (induction swe p end_jd s rule: scan_loop.induct)
  case (1 swe p end_jd s)
  show ?case
  proof (cases "scan_jd s < end_jd")
    case True
    let ?s = "scan_step swe p end_jd s"
    have eq: "scan_step swe' p end_jd s = ?s"
      using scan_step_cong[OF True "1.prems"] by simp
    have "\<forall>t. scan_jd ?s < t \<and> t \<le> end_jd \<longrightarrow> planet_data swe t p = planet_data swe' t p"
    proof (intro allI impI)
      fix t assume t: "scan_jd ?s < t \<and> t \<le> end_jd"
      with scan_step_advances[OF True, of swe p] have "scan_jd s < t" by linarith
      with t "1.prems" show "planet_data swe t p = planet_data swe' t p" by blast
    qed
    from "1.IH"[OF True this] show ?thesis
      by (simp add: scan_loop_step[OF True] eq)
  next
    case False
    then show ?thesis by (simp add: scan_loop_stop)
  qed
qed

lemma find_events_cong:
  assumes "swe start_jd (queried_body p) = swe' start_jd (queried_body p)"
    and "\<forall>t. start_jd < t \<and> t \<le> end_jd \<longrightarrow> swe t (queried_body p) = swe' t (queried_body p)"
  shows "find_events swe p start_jd end_jd = find_events swe' p start_jd end_jd"
proof -
  have "planet_data swe start_jd p = planet_data swe' start_jd p"
    using assms(1) by (rule planet_data_cong)
  then have i: "initial_state swe p start_jd = initial_state swe' p start_jd"
    by (simp add: initial_state_def sign_at_def retro_at_def speed_at_def)
  have "\<forall>t. scan_jd (initial_state swe' p start_jd) < t \<and> t \<le> end_jd
          \<longrightarrow> planet_data swe t p = planet_data swe' t p"
    using assms(2) by (auto intro: planet_data_cong simp add: initial_state_def)
  then have "scan_loop swe p end_jd (initial_state swe' p start_jd)
      = scan_loop swe' p end_jd (initial_state swe' p start_jd)"
    by (rule scan_loop_cong)
  then show ?thesis
    unfolding find_events_eq i by simp
qed

lemmas sample_defs = planet_data_def sign_at_def retro_at_def speed_at_def get_sign_def py_int_def
  queried_body_def

subsection \<open>Concrete runs on the synthetic ephemerides\<close>

text \<open>
  The runs are evaluated step by step: the refinement of each bracket first, then the
  passes of the scan loop.
\<close>

lemmas refine_eval = refine_def eval_nat_numeral refine_step_eq matches_at_def match_prev_def
  sample_defs

lemma one_change_found:
  "found_jd (refine one_change SUN True False 1 False 0 (1/4) clog) = 1/8"
  by (simp add: refine_eval one_change_def)

lemma two_axes_found_first:
  "found_jd (refine two_axes SUN True True 1 False 0 (1/4) clog) = 1/8"
  by (simp add: refine_eval two_axes_def)

lemma two_axes_found_second:
  "found_jd (refine two_axes SUN False True 2 False (1251/10000) (1/4) clog)
     = 1966080957 / 10485760000"
  by (simp add: refine_eval two_axes_def)

lemma one_change_run:
  "fst (find_events one_change SUN 0 (1/4)) =
     [\<lparr>jd = 0, sign = 1, retro = False, speed = 1\<rparr>,
      \<lparr>jd = 1/8, sign = 2, retro = False, speed = 1\<rparr>]"
proof -
  define s0 where "s0 = initial_state one_change SUN 0"
  define s1 where "s1 = scan_step one_change SUN (1/4) s0"
  define s2 where "s2 = scan_step one_change SUN (1/4) s1"
  have s0: "scan_jd s0 = 0" "curr_sign s0 = 1" "curr_retro s0 = False"
    "events s0 = [\<lparr>jd = 0, sign = 1, retro = False, speed = 1\<rparr>]"
    by (simp_all add: s0_def initial_state_def sample_defs one_change_def)
  have n0: "next_sample SUN (1/4) s0 = 1/4"
    by (simp add: next_sample_def step_days_def s0)
  have c0: "state_changed one_change SUN (1/4) s0"
    unfolding state_changed_def n0 s0 by (simp add: sample_defs one_change_def)
  have f0: "found_jd (bracket_refine one_change SUN (1/4) s0) = 1/8"
    unfolding bracket_refine_def n0 s0
    by (simp add: sample_defs one_change_def one_change_found)
  have s1: "scan_jd s1 = 1/8 + 0.0001" "curr_sign s1 = 2" "curr_retro s1 = False"
    "events s1 = [\<lparr>jd = 0, sign = 1, retro = False, speed = 1\<rparr>,
                  \<lparr>jd = 1/8, sign = 2, retro = False, speed = 1\<rparr>]"
    unfolding s1_def scan_step_eq using c0
    by (simp_all add: f0 s0 sample_defs one_change_def)
  have n1: "next_sample SUN (1/4) s1 = 1/4"
    by (simp add: next_sample_def step_days_def s1)
  have c1: "\<not> state_changed one_change SUN (1/4) s1"
    unfolding state_changed_def n1 s1 by (simp add: sample_defs one_change_def)
  have s2: "scan_jd s2 = 1/4" "events s2 = events s1"
    unfolding s2_def scan_step_eq using c1 by (simp_all add: n1)
  have "scan_loop one_change SUN (1/4) s0 = scan_loop one_change SUN (1/4) s1"
    unfolding s1_def by (rule scan_loop_step) (simp add: s0)
  also have "\<dots> = scan_loop one_change SUN (1/4) s2"
    unfolding s2_def by (rule scan_loop_step) (simp add: s1)
  also have "\<dots> = s2"
    by (rule scan_loop_stop) (simp add: s2)
  finally show ?thesis
    by (simp add: find_events_eq s0_def[symmetric] s2 s1)
qed

lemma two_axes_run:
  "fst (find_events two_axes SUN 0 (1/4)) =
     [\<lparr>jd = 0, sign = 1, retro = False, speed = 1\<rparr>,
      \<lparr>jd = 1/8, sign = 2, retro = False, speed = 1\<rparr>,
      \<lparr>jd = 1966080957 / 10485760000, sign = 2, retro = True, speed = - 1\<rparr>]"
proof -
  define s0 where "s0 = initial_state two_axes SUN 0"
  define s1 where "s1 = scan_step two_axes SUN (1/4) s0"
  define s2 where "s2 = scan_step two_axes SUN (1/4) s1"
  define s3 where "s3 = scan_step two_axes SUN (1/4) s2"
  have s0: "scan_jd s0 = 0" "curr_sign s0 = 1" "curr_retro s0 = False"
    "events s0 = [\<lparr>jd = 0, sign = 1, retro = False, speed = 1\<rparr>]"
    by (simp_all add: s0_def initial_state_def sample_defs two_axes_def)
  have n0: "next_sample SUN (1/4) s0 = 1/4"
    by (simp add: next_sample_def step_days_def s0)
  have c0: "state_changed two_axes SUN (1/4) s0"
    unfolding state_changed_def n0 s0 by (simp add: sample_defs two_axes_def)
  have f0: "found_jd (bracket_refine two_axes SUN (1/4) s0) = 1/8"
    unfolding bracket_refine_def n0 s0
    by (simp add: sample_defs two_axes_def two_axes_found_first)
  have s1: "scan_jd s1 = 1251/10000" "curr_sign s1 = 2" "curr_retro s1 = False"
    "events s1 = [\<lparr>jd = 0, sign = 1, retro = False, speed = 1\<rparr>,
                  \<lparr>jd = 1/8, sign = 2, retro = False, speed = 1\<rparr>]"
    unfolding s1_def scan_step_eq using c0
    by (simp_all add: f0 s0 sample_defs two_axes_def)
  have n1: "next_sample SUN (1/4) s1 = 1/4"
    by (simp add: next_sample_def step_days_def s1)
  have c1: "state_changed two_axes SUN (1/4) s1"
    unfolding state_changed_def n1 s1 by (simp add: sample_defs two_axes_def)
  have f1: "found_jd (bracket_refine two_axes SUN (1/4) s1) = 1966080957 / 10485760000"
    unfolding bracket_refine_def n1 s1
    by (simp add: sample_defs two_axes_def two_axes_found_second)
  have s2: "scan_jd s2 = 1966080957 / 10485760000 + 0.0001" "curr_sign s2 = 2" "curr_retro s2 = True"
    "events s2 = [\<lparr>jd = 0, sign = 1, retro = False, speed = 1\<rparr>,
                  \<lparr>jd = 1/8, sign = 2, retro = False, speed = 1\<rparr>,
                  \<lparr>jd = 1966080957 / 10485760000, sign = 2, retro = True, speed = - 1\<rparr>]"
    unfolding s2_def scan_step_eq using c1
    by (simp_all add: f1 s1 sample_defs two_axes_def)
  have n2: "next_sample SUN (1/4) s2 = 1/4"
    by (simp add: next_sample_def step_days_def s2)
  have c2: "\<not> state_changed two_axes SUN (1/4) s2"
    unfolding state_changed_def n2 s2 by (simp add: sample_defs two_axes_def)
  have s3: "scan_jd s3 = 1/4" "events s3 = events s2"
    unfolding s3_def scan_step_eq using c2 by (simp_all add: n2)
  have "scan_loop two_axes SUN (1/4) s0 = scan_loop two_axes SUN (1/4) s1"
    unfolding s1_def by (rule scan_loop_step) (simp add: s0)
  also have "\<dots> = scan_loop two_axes SUN (1/4) s2"
    unfolding s2_def by (rule scan_loop_step) (simp add: s1)
  also have "\<dots> = scan_loop two_axes SUN (1/4) s3"
    unfolding s3_def by (rule scan_loop_step) (simp add: s2)
  also have "\<dots> = s3"
    by (rule scan_loop_stop) (simp add: s3)
  finally show ?thesis
    by (simp add: find_events_eq s0_def[symmetric] s3 s2)
qed

lemma three_changes_found_first:
  "found_jd (refine three_changes SUN True True 1 False 0 (1/4) clog) = 1/8"
  by (simp add: refine_eval three_changes_def)

lemma three_changes_found_second:
  "found_jd (refine three_changes SUN True True 2 False (1251/10000) (1/4) clog)
     = 52470793 / 419430400"
  by (simp add: refine_eval three_changes_def)

lemma three_changes_found_third:
  "found_jd (refine three_changes SUN True False 2 True (1312818401/10485760000) (1/4) clog)
     = 257698153300041 / 1374389534720000"
  by (simp add: refine_eval three_changes_def)

lemma three_changes_run:
  "fst (find_events three_changes SUN 0 (1/4)) =
     [\<lparr>jd = 0, sign = 1, retro = False, speed = 1\<rparr>,
      \<lparr>jd = 1/8, sign = 2, retro = False, speed = 1\<rparr>,
      \<lparr>jd = 52470793 / 419430400, sign = 2, retro = True, speed = - 1\<rparr>,
      \<lparr>jd = 257698153300041 / 1374389534720000, sign = 3, retro = True, speed = - 1\<rparr>]"
proof -
  define s0 where "s0 = initial_state three_changes SUN 0"
  define s1 where "s1 = scan_step three_changes SUN (1/4) s0"
  define s2 where "s2 = scan_step three_changes SUN (1/4) s1"
  define s3 where "s3 = scan_step three_changes SUN (1/4) s2"
  define s4 where "s4 = scan_step three_changes SUN (1/4) s3"
  have s0: "scan_jd s0 = 0" "curr_sign s0 = 1" "curr_retro s0 = False"
    "events s0 = [\<lparr>jd = 0, sign = 1, retro = False, speed = 1\<rparr>]"
    by (simp_all add: s0_def initial_state_def sample_defs three_changes_def)
  have n0: "next_sample SUN (1/4) s0 = 1/4"
    by (simp add: next_sample_def step_days_def s0)
  have c0: "state_changed three_changes SUN (1/4) s0"
    unfolding state_changed_def n0 s0 by (simp add: sample_defs three_changes_def)
  have f0: "found_jd (bracket_refine three_changes SUN (1/4) s0) = 1/8"
    unfolding bracket_refine_def n0 s0
    by (simp add: sample_defs three_changes_def three_changes_found_first)
  have s1: "scan_jd s1 = 1251/10000" "curr_sign s1 = 2" "curr_retro s1 = False"
    "events s1 = [\<lparr>jd = 0, sign = 1, retro = False, speed = 1\<rparr>,
                  \<lparr>jd = 1/8, sign = 2, retro = False, speed = 1\<rparr>]"
    unfolding s1_def scan_step_eq using c0
    by (simp_all add: f0 s0 sample_defs three_changes_def)
  have n1: "next_sample SUN (1/4) s1 = 1/4"
    by (simp add: next_sample_def step_days_def s1)
  have c1: "state_changed three_changes SUN (1/4) s1"
    unfolding state_changed_def n1 s1 by (simp add: sample_defs three_changes_def)
  have f1: "found_jd (bracket_refine three_changes SUN (1/4) s1) = 52470793 / 419430400"
    unfolding bracket_refine_def n1 s1
    by (simp add: sample_defs three_changes_def three_changes_found_second)
  have s2: "scan_jd s2 = 1312818401/10485760000" "curr_sign s2 = 2" "curr_retro s2 = True"
    "events s2 = [\<lparr>jd = 0, sign = 1, retro = False, speed = 1\<rparr>,
                  \<lparr>jd = 1/8, sign = 2, retro = False, speed = 1\<rparr>,
                  \<lparr>jd = 52470793 / 419430400, sign = 2, retro = True, speed = - 1\<rparr>]"
    unfolding s2_def scan_step_eq using c1
    by (simp_all add: f1 s1 sample_defs three_changes_def)
  have n2: "next_sample SUN (1/4) s2 = 1/4"
    by (simp add: next_sample_def step_days_def s2)
  have c2: "state_changed three_changes SUN (1/4) s2"
    unfolding state_changed_def n2 s2 by (simp add: sample_defs three_changes_def)
  have f2: "found_jd (bracket_refine three_changes SUN (1/4) s2)
              = 257698153300041 / 1374389534720000"
    unfolding bracket_refine_def n2 s2
    by (simp add: sample_defs three_changes_def three_changes_found_third)
  have s3: "scan_jd s3 = 257698153300041 / 1374389534720000 + 0.0001"
    "curr_sign s3 = 3" "curr_retro s3 = True"
    "events s3 = [\<lparr>jd = 0, sign = 1, retro = False, speed = 1\<rparr>,
                  \<lparr>jd = 1/8, sign = 2, retro = False, speed = 1\<rparr>,
                  \<lparr>jd = 52470793 / 419430400, sign = 2, retro = True, speed = - 1\<rparr>,
                  \<lparr>jd = 257698153300041 / 1374389534720000, sign = 3, retro = True,
                    speed = - 1\<rparr>]"
    unfolding s3_def scan_step_eq using c2
    by (simp_all add: f2 s2 sample_defs three_changes_def)
  have n3: "next_sample SUN (1/4) s3 = 1/4"
    by (simp add: next_sample_def step_days_def s3)
  have c3: "\<not> state_changed three_changes SUN (1/4) s3"
    unfolding state_changed_def n3 s3 by (simp add: sample_defs three_changes_def)
  have s4: "scan_jd s4 = 1/4" "events s4 = events s3"
    unfolding s4_def scan_step_eq using c3 by (simp_all add: n3)
  have "scan_loop three_changes SUN (1/4) s0 = scan_loop three_changes SUN (1/4) s1"
    unfolding s1_def by (rule scan_loop_step) (simp add: s0)
  also have "\<dots> = scan_loop three_changes SUN (1/4) s2"
    unfolding s2_def by (rule scan_loop_step) (simp add: s1)
  also have "\<dots> = scan_loop three_changes SUN (1/4) s3"
    unfolding s3_def by (rule scan_loop_step) (simp add: s2)
  also have "\<dots> = scan_loop three_changes SUN (1/4) s4"
    unfolding s4_def by (rule scan_loop_step) (simp add: s3)
  also have "\<dots> = s4"
    by (rule scan_loop_stop) (simp add: s4)
  finally show ?thesis
    by (simp add: find_events_eq s0_def[symmetric] s4 s3)
qed

text \<open>
  Between \<open>0.1251\<close> and \<open>1/4\<close> the third ephemeris changes state exactly once, at \<open>3/16\<close>:
  it is retrograde throughout, in sign 2 before \<open>3/16\<close> and in sign 3 from there on.
\<close>

lemma three_changes_single_change:
  "\<forall>t. 1251/10000 \<le> t \<and> t \<le> 1/4 \<longrightarrow>
     (sign_at three_changes SUN t, retro_at three_changes SUN t)
       = (if t < 3/16 then (2, True) else (3, True))"
  by (simp add: sample_defs three_changes_def)

subsection \<open>Event times lie inside the window\<close>

lemma find_events_times:
  assumes "e \<in> set (fst (find_events swe p start_jd end_jd))" "start_jd \<le> end_jd"
  shows "start_jd \<le> jd e \<and> jd e \<le> end_jd"
proof -
  let ?evs = "fst (find_events swe p start_jd end_jd)"
  have inv: "scan_inv swe p start_jd end_jd (scan_loop swe p end_jd (initial_state swe p start_jd))"
    by (rule find_events_inv)
  have ev: "?evs = events (scan_loop swe p end_jd (initial_state swe p start_jd))"
    by (simp add: find_events_eq)
  have ne: "?evs \<noteq> []" and hd: "jd (hd ?evs) = start_jd"
    and srt: "sorted_wrt (<) (map jd ?evs)"
    and le: "\<forall>e \<in> set ?evs. jd e \<le> max start_jd end_jd"
    using inv unfolding ev scan_inv_def by simp_all
  obtain i where i: "i < length ?evs" "e = ?evs ! i"
    using assms(1) by (auto simp add: in_set_conv_nth)
  have "jd (?evs ! 0) \<le> jd (?evs ! i)"
  proof (cases i)
    case 0
    then show ?thesis by simp
  next
    case (Suc k)
    then have "map jd ?evs ! 0 < map jd ?evs ! i"
      using srt i(1) by (simp add: sorted_wrt_iff_nth_less del: nth_map)
    then show ?thesis using i(1) ne by simp
  qed
  then have "start_jd \<le> jd e" using hd ne i by (simp add: hd_conv_nth)
  moreover have "jd e \<le> end_jd" using le assms by (simp add: max_def)
  ultimately show ?thesis ..
qed

section \<open>The claims\<close>

subsection \<open>C1: range of the sign index\<close>

text \<open>
  C1 states that the classifier first reduces any longitude modulo 360 and then returns
  \<open>floor(normalised / 30) + 1\<close>, a value between 1 and 12, for every real longitude.
  \<^verbatim>\<open>get_sign\<close> does not reduce its argument: at the longitude \<open>-45\<close> it returns
  \<open>int(-1.5) + 1 = 0\<close>, where the reduced longitude 315 would give 11.
\<close>

theorem get_sign_unnormalised_counterexample:
  "\<not> (get_sign (-45) = \<lfloor>py_mod (-45) 360 / 30\<rfloor> + 1 \<and> 1 \<le> get_sign (-45) \<and> get_sign (-45) \<le> 12)"
  by (simp add: get_sign_def py_int_def py_mod_def)

text \<open>
  C1 as amended: for every longitude in \<open>[0, 360)\<close>, which is what the ephemeris and the
  Ketu branch of \<^verbatim>\<open>get_planet_data\<close> deliver, \<^verbatim>\<open>get_sign\<close> returns \<open>floor(lon / 30) + 1\<close>,
  and this lies between 1 and 12.
\<close>

theorem get_sign_in_range:
  assumes "0 \<le> lon" "lon < 360"
  shows "get_sign lon = \<lfloor>lon / 30\<rfloor> + 1 \<and> 1 \<le> get_sign lon \<and> get_sign lon \<le> 12"
proof -
  have "0 \<le> lon / 30" "lon / 30 < 12" using assms by simp_all
  then have "0 \<le> \<lfloor>lon / 30\<rfloor>" "\<lfloor>lon / 30\<rfloor> < 12"
    by (simp_all add: floor_less_iff)
  then show ?thesis using assms by (simp add: get_sign_def py_int_def)
qed

theorem get_sign_in_range_witness:
  "(0::real) \<le> 45 \<and> (45::real) < 360 \<and> get_sign 45 = \<lfloor>45 / 30 :: real\<rfloor> + 1 \<and> get_sign 45 = 2"
  using get_sign_in_range[of 45] by simp

subsection \<open>C2: windows with \<open>window_start \<ge> window_end\<close>\<close>

text \<open>
  C2 states that a window with \<open>window_start \<ge> window_end\<close> is rejected as an error before
  any ephemeris call. \<^verbatim>\<open>find_events\<close> has no such check: for the window from 1 to 0 it
  queries the ephemeris once, at the start, and returns a list of one event.
\<close>

theorem invalid_window_not_rejected_counterexample:
  "snd (find_events one_change SUN 1 0) \<noteq> [] \<and>
   find_events one_change SUN 1 0 =
     ([\<lparr>jd = 1, sign = 2, retro = False, speed = 1\<rparr>], [(1, SUN)])"
  by (simp add: find_events_empty_window sample_defs one_change_def)

text \<open>
  C2 as amended: for every window with \<open>window_start \<ge> window_end\<close>, \<^verbatim>\<open>find_events\<close> raises
  no error; it makes exactly one ephemeris call, at \<open>window_start\<close>, and returns the
  one-event list that holds the sample taken there.
\<close>

theorem find_events_inverted_window:
  assumes "end_jd \<le> start_jd"
  shows "find_events swe p start_jd end_jd =
     ([\<lparr>jd = start_jd, sign = sign_at swe p start_jd, retro = retro_at swe p start_jd,
         speed = speed_at swe p start_jd\<rparr>],
      [(start_jd, queried_body p)])"
  using assms by (rule find_events_empty_window)

theorem find_events_inverted_window_witness:
  "(0::real) \<le> 1 \<and> find_events one_change SUN 1 0 =
     ([\<lparr>jd = 1, sign = sign_at one_change SUN 1, retro = retro_at one_change SUN 1,
         speed = speed_at one_change SUN 1\<rparr>],
      [(1, queried_body SUN)])"
  using find_events_inverted_window[of 0 1 one_change SUN] by simp

subsection \<open>C3: strictly increasing times, no repeated state\<close>

text \<open>
  C3: for every body and every window with \<open>window_start < window_end\<close>, any two consecutive
  events of the returned list satisfy \<open>event[i].time < event[i+1].time\<close>, and their states,
  the pairs (sign, retrograde flag), differ. Times are reals here; the source adds and
  halves floats.
\<close>

theorem events_strictly_ordered:
  assumes "start_jd < end_jd"
  shows "\<forall>i. Suc i < length (fst (find_events swe p start_jd end_jd)) \<longrightarrow>
     jd (fst (find_events swe p start_jd end_jd) ! i)
       < jd (fst (find_events swe p start_jd end_jd) ! Suc i) \<and>
     (sign (fst (find_events swe p start_jd end_jd) ! i),
      retro (fst (find_events swe p start_jd end_jd) ! i))
       \<noteq> (sign (fst (find_events swe p start_jd end_jd) ! Suc i),
           retro (fst (find_events swe p start_jd end_jd) ! Suc i))"
proof (intro allI impI)
  fix i
  let ?evs = "fst (find_events swe p start_jd end_jd)"
  assume i: "Suc i < length ?evs"
  have inv: "scan_inv swe p start_jd end_jd (scan_loop swe p end_jd (initial_state swe p start_jd))"
    by (rule find_events_inv)
  have ev: "?evs = events (scan_loop swe p end_jd (initial_state swe p start_jd))"
    by (simp add: find_events_eq)
  have srt: "sorted_wrt (<) (map jd ?evs)"
    and adj: "distinct_adj (map (\<lambda>e. (sign e, retro e)) ?evs)"
    using inv unfolding ev scan_inv_def by simp_all
  have "map jd ?evs ! i < map jd ?evs ! Suc i"
    using srt i by (simp add: sorted_wrt_iff_nth_less del: nth_map)
  then have 1: "jd (?evs ! i) < jd (?evs ! Suc i)" using i by simp
  have "map (\<lambda>e. (sign e, retro e)) ?evs ! i \<noteq> map (\<lambda>e. (sign e, retro e)) ?evs ! Suc i"
    using adj i by (simp add: distinct_adj_conv_nth del: nth_map)
  then have 2: "(sign (?evs ! i), retro (?evs ! i)) \<noteq> (sign (?evs ! Suc i), retro (?evs ! Suc i))"
    using i by simp
  from 1 2 show "jd (?evs ! i) < jd (?evs ! Suc i) \<and>
     (sign (?evs ! i), retro (?evs ! i)) \<noteq> (sign (?evs ! Suc i), retro (?evs ! Suc i))" ..
qed

theorem events_strictly_ordered_witness:
  "(0::real) < 1/4 \<and> Suc 0 < length (fst (find_events one_change SUN 0 (1/4))) \<and>
   jd (fst (find_events one_change SUN 0 (1/4)) ! 0)
     < jd (fst (find_events one_change SUN 0 (1/4)) ! Suc 0) \<and>
   (sign (fst (find_events one_change SUN 0 (1/4)) ! 0),
    retro (fst (find_events one_change SUN 0 (1/4)) ! 0))
     \<noteq> (sign (fst (find_events one_change SUN 0 (1/4)) ! Suc 0),
         retro (fst (find_events one_change SUN 0 (1/4)) ! Suc 0))"
proof -
  have h: "(0::real) < 1/4" by simp
  have l: "Suc 0 < length (fst (find_events one_change SUN 0 (1/4)))"
    by (simp add: one_change_run)
  from events_strictly_ordered[OF h, of one_change SUN, rule_format, OF l] h l
  show ?thesis by blast
qed

subsection \<open>C4: a bracket in which sign and motion both change\<close>

text \<open>
  C4 states that, when both axes change inside one bracket, the refined instant is one
  after which both changes have taken effect, not the instant of the earlier of the two.
  The test \<^verbatim>\<open>match_prev\<close> does require a midpoint to agree with the previous state on both
  axes, but for that very reason a midpoint at which only one axis has changed moves
  \<^verbatim>\<open>high\<close>, and the bisection closes in on the earlier change. With the sign changing at
  \<open>1/8\<close> and the motion at \<open>3/16\<close> inside the bracket from 0 to \<open>1/4\<close>, the refined instant
  is \<open>1/8\<close> and the event recorded there is still direct. (In this run the motion change
  is recorded by a later pass of the scan loop, as a third event; nothing is claimed about
  later passes in general.)
\<close>

theorem both_axes_refined_to_first_counterexample:
  "sign_at two_axes SUN (1/4) \<noteq> sign_at two_axes SUN 0 \<and>
   retro_at two_axes SUN (1/4) \<noteq> retro_at two_axes SUN 0 \<and>
   found_jd (refine two_axes SUN True True (sign_at two_axes SUN 0) (retro_at two_axes SUN 0)
               0 (1/4) [(0, SUN), (1/4, SUN)]) = 1/8 \<and>
   retro_at two_axes SUN (1/8) = retro_at two_axes SUN 0 \<and>
   length (fst (find_events two_axes SUN 0 (1/4))) = 3 \<and>
   fst (find_events two_axes SUN 0 (1/4)) ! 1 = \<lparr>jd = 1/8, sign = 2, retro = False, speed = 1\<rparr> \<and>
   retro (fst (find_events two_axes SUN 0 (1/4)) ! 2) = True \<and>
   3/16 \<le> jd (fst (find_events two_axes SUN 0 (1/4)) ! 2)"
proof -
  have s: "sign_at two_axes SUN 0 = 1" "retro_at two_axes SUN 0 = False"
    "sign_at two_axes SUN (1/4) = 2" "retro_at two_axes SUN (1/4) = True"
    "retro_at two_axes SUN (1/8) = False"
    by (simp_all add: sample_defs two_axes_def)
  show ?thesis
    unfolding s two_axes_run by (simp add: two_axes_found_first)
qed

text \<open>
  C4 as amended: when both a sign change and a motion change are detected in one bracket,
  a midpoint counts as pre-change only if it agrees with the previous state on both axes.
  The refined instant lies in the bracket, after \<open>prev_time\<close> and not after \<open>next_time\<close>,
  and at least one of the two axes differs from the previous state there. When, inside
  the bracket, the sign has its previous value exactly before an instant \<open>c1\<close> and the
  motion exactly before an instant \<open>c2\<close>, the refined instant is at or after the earlier of
  \<open>c1\<close> and \<open>c2\<close> and exceeds it by less than the bracket width divided by \<open>2^20\<close>: it is
  the instant of the earlier of the two changes. Times are reals here.
\<close>

theorem refine_both_axes:
  assumes "prev_jd < next_jd"
    and "sign_at swe p next_jd \<noteq> ps" and "retro_at swe p next_jd \<noteq> pr"
  shows "let r = refine swe p True True ps pr prev_jd next_jd clog in
     (\<forall>r0. refine_step swe p True True ps pr r0 =
        (if sign_at swe p ((low r0 + high r0) / 2) = ps \<and>
            retro_at swe p ((low r0 + high r0) / 2) = pr
         then r0\<lparr>low := (low r0 + high r0) / 2,
                 ref_calls := ref_calls r0 @ [((low r0 + high r0) / 2, queried_body p)]\<rparr>
         else r0\<lparr>high := (low r0 + high r0) / 2, found_jd := (low r0 + high r0) / 2,
                 ref_calls := ref_calls r0 @ [((low r0 + high r0) / 2, queried_body p)]\<rparr>)) \<and>
     prev_jd < found_jd r \<and> found_jd r \<le> next_jd \<and>
     (sign_at swe p (found_jd r) \<noteq> ps \<or> retro_at swe p (found_jd r) \<noteq> pr) \<and>
     (\<forall>c1 c2. prev_jd < c1 \<and> c1 \<le> next_jd \<and> prev_jd < c2 \<and> c2 \<le> next_jd \<and>
          (\<forall>t. prev_jd < t \<and> t \<le> next_jd \<longrightarrow>
             (sign_at swe p t = ps \<longleftrightarrow> t < c1) \<and> (retro_at swe p t = pr \<longleftrightarrow> t < c2))
        \<longrightarrow> min c1 c2 \<le> found_jd r \<and> found_jd r - min c1 c2 < (next_jd - prev_jd) / 2 ^ 20)"
proof -
  let ?r = "refine swe p True True ps pr prev_jd next_jd clog"
  have 1: "refine_step swe p True True ps pr r0 =
        (if sign_at swe p ((low r0 + high r0) / 2) = ps \<and>
            retro_at swe p ((low r0 + high r0) / 2) = pr
         then r0\<lparr>low := (low r0 + high r0) / 2,
                 ref_calls := ref_calls r0 @ [((low r0 + high r0) / 2, queried_body p)]\<rparr>
         else r0\<lparr>high := (low r0 + high r0) / 2, found_jd := (low r0 + high r0) / 2,
                 ref_calls := ref_calls r0 @ [((low r0 + high r0) / 2, queried_body p)]\<rparr>)" for r0
    by (simp add: refine_step_eq matches_at_iff)
  have 2: "prev_jd < found_jd ?r \<and> found_jd ?r \<le> next_jd"
    using assms(1) by (rule refine_progress)
  have "\<not> matches_at swe p True True ps pr next_jd"
    using assms(2) by (simp add: matches_at_iff)
  then have "\<not> matches_at swe p True True ps pr (found_jd ?r)"
    by (rule refine_found_differs)
  then have 3: "sign_at swe p (found_jd ?r) \<noteq> ps \<or> retro_at swe p (found_jd ?r) \<noteq> pr"
    by (simp add: matches_at_iff)
  have 4: "min c1 c2 \<le> found_jd ?r \<and> found_jd ?r - min c1 c2 < (next_jd - prev_jd) / 2 ^ 20"
    if c: "prev_jd < c1 \<and> c1 \<le> next_jd \<and> prev_jd < c2 \<and> c2 \<le> next_jd \<and>
          (\<forall>t. prev_jd < t \<and> t \<le> next_jd \<longrightarrow>
             (sign_at swe p t = ps \<longleftrightarrow> t < c1) \<and> (retro_at swe p t = pr \<longleftrightarrow> t < c2))"
    for c1 c2
  proof -
    have "\<forall>t. prev_jd < t \<and> t \<le> next_jd \<longrightarrow>
            (matches_at swe p True True ps pr t \<longleftrightarrow> t < min c1 c2)"
      using c by (simp add: matches_at_iff)
    moreover have "prev_jd < min c1 c2" "min c1 c2 \<le> next_jd" using c by auto
    ultimately have "low ?r < min c1 c2 \<and> min c1 c2 \<le> found_jd ?r \<and>
        found_jd ?r - min c1 c2 < (next_jd - prev_jd) / 2 ^ 20"
      by (intro refine_converges) simp_all
    then show ?thesis by simp
  qed
  show ?thesis unfolding Let_def using 1 2 3 4 by blast
qed

theorem refine_both_axes_witness:
  "(0::real) < 1/4 \<and> sign_at two_axes SUN (1/4) = 2 \<and> retro_at two_axes SUN (1/4) = True \<and>
   min (1/8) (3/16) \<le> found_jd (refine two_axes SUN True True 1 False 0 (1/4) []) \<and>
   found_jd (refine two_axes SUN True True 1 False 0 (1/4) []) - min (1/8) (3/16)
     < (1/4 - 0) / 2 ^ 20"
proof -
  have h1: "(0::real) < 1/4" by simp
  have h2: "sign_at two_axes SUN (1/4) \<noteq> 1" and h3: "retro_at two_axes SUN (1/4) \<noteq> False"
    by (simp_all add: sample_defs two_axes_def)
  have hc: "(0::real) < 1/8 \<and> (1/8::real) \<le> 1/4 \<and> (0::real) < 3/16 \<and> (3/16::real) \<le> 1/4 \<and>
     (\<forall>t. 0 < t \<and> t \<le> 1/4 \<longrightarrow>
        (sign_at two_axes SUN t = 1 \<longleftrightarrow> t < 1/8) \<and>
        (retro_at two_axes SUN t = False \<longleftrightarrow> t < 3/16))"
    by (simp add: sample_defs two_axes_def)
  have v: "sign_at two_axes SUN (1/4) = 2" "retro_at two_axes SUN (1/4) = True"
    by (simp_all add: sample_defs two_axes_def)
  from refine_both_axes[OF h1 h2 h3, of "[]"] hc h1 v
  show ?thesis unfolding Let_def by blast
qed

subsection \<open>C5: twenty bisection steps\<close>

text \<open>
  C5 states that for every detected bracket from \<open>prev_time\<close> to \<open>next_time\<close> the refinement
  makes exactly twenty passes, returns the final \<^verbatim>\<open>high\<close>, which lies after \<open>prev_time\<close> and
  not after \<open>next_time\<close>, and is within \<open>(next_time - prev_time) / 2^20\<close> of the change
  whenever the bracket holds exactly one change. The last part fails for a bracket that
  opens after an event. There \<^verbatim>\<open>prev_jd\<close> is the event time plus \<open>0.0001\<close>, while the state
  that midpoints are compared with is the one sampled at the event time. With the third
  synthetic ephemeris the first event is at \<open>1/8\<close>, in sign 2 and direct, and the body turns
  retrograde at \<open>0.12505\<close>, before the next bracket opens at \<open>0.1251\<close>. That bracket, from
  \<open>0.1251\<close> to \<open>1/4\<close>, holds exactly one change, at \<open>3/16\<close> (lemma
  \<open>three_changes_single_change\<close>), and it is detected; but every midpoint is retrograde,
  none matches the remembered state, and the refinement returns an instant just above
  \<open>0.1251\<close>, more than \<open>0.06\<close> before \<open>3/16\<close>. The exact value below is that of the model;
  the double that the source computes differs from it by rounding only.
\<close>

theorem stale_state_bracket_counterexample:
  "fst (find_events three_changes SUN 0 (1/4)) ! 1
     = \<lparr>jd = 1/8, sign = 2, retro = False, speed = 1\<rparr> \<and>
   (sign_at three_changes SUN (1251/10000), retro_at three_changes SUN (1251/10000)) = (2, True) \<and>
   (sign_at three_changes SUN (1/4), retro_at three_changes SUN (1/4)) = (3, True) \<and>
   found_jd (refine three_changes SUN (sign_at three_changes SUN (1/4) \<noteq> 2)
               (retro_at three_changes SUN (1/4) \<noteq> False) 2 False (1251/10000) (1/4)
               [(0, SUN), (1/4, SUN)])
     = 52470793 / 419430400 \<and>
   fst (find_events three_changes SUN 0 (1/4)) ! 2
     = \<lparr>jd = 52470793 / 419430400, sign = 2, retro = True, speed = - 1\<rparr> \<and>
   (52470793 / 419430400 :: real) < 1252/10000 \<and>
   \<not> (\<bar>52470793 / 419430400 - 3/16\<bar> \<le> ((1/4 - 1251/10000) / 2 ^ 20 :: real))"
proof -
  have s: "sign_at three_changes SUN (1251/10000) = 2"
    "retro_at three_changes SUN (1251/10000) = True"
    "sign_at three_changes SUN (1/4) = 3" "retro_at three_changes SUN (1/4) = True"
    by (simp_all add: sample_defs three_changes_def)
  show ?thesis
    unfolding s three_changes_run by (simp add: three_changes_found_second)
qed

text \<open>
  C5 as amended: for every detected bracket from \<open>prev_time\<close> to \<open>next_time\<close> the refinement
  makes exactly twenty passes (twenty ephemeris calls, each halving the interval), the
  instant it returns is the final \<^verbatim>\<open>high\<close>, and it lies after \<open>prev_time\<close> and not after
  \<open>next_time\<close>. When, inside the bracket, the samples have the state the scanner remembers
  before one instant \<open>c\<close> and the state found at \<open>next_time\<close> from \<open>c\<close> on, then \<open>c\<close> lies
  in the final interval, after \<^verbatim>\<open>low\<close> and not after \<^verbatim>\<open>high\<close>, so the returned instant is at
  or after \<open>c\<close> and exceeds it by less than the width of that interval, which is
  \<open>(next_time - prev_time) / 2^20\<close> in exact arithmetic. The flags are those that
  \<^verbatim>\<open>find_events\<close> computes for the bracket. Times are reals here; the rounding of the
  midpoints in doubles is not covered.
\<close>

theorem refine_bracket_precision:
  assumes "prev_jd < next_jd"
    and "sign_at swe p next_jd \<noteq> ps \<or> retro_at swe p next_jd \<noteq> pr"
  shows "let r = refine swe p (sign_at swe p next_jd \<noteq> ps) (retro_at swe p next_jd \<noteq> pr)
                   ps pr prev_jd next_jd clog in
     length (ref_calls r) = length clog + 20 \<and>
     high r - low r = (next_jd - prev_jd) / 2 ^ 20 \<and>
     found_jd r = high r \<and>
     prev_jd < found_jd r \<and> found_jd r \<le> next_jd \<and>
     (\<forall>c. prev_jd < c \<and> c \<le> next_jd \<and>
          (\<forall>t. prev_jd < t \<and> t \<le> next_jd \<longrightarrow>
             (sign_at swe p t, retro_at swe p t)
               = (if t < c then (ps, pr) else (sign_at swe p next_jd, retro_at swe p next_jd)))
        \<longrightarrow> low r < c \<and> c \<le> found_jd r \<and>
            found_jd r - c < (next_jd - prev_jd) / 2 ^ 20)"
proof -
  let ?sc = "sign_at swe p next_jd \<noteq> ps"
  let ?mc = "retro_at swe p next_jd \<noteq> pr"
  let ?r = "refine swe p ?sc ?mc ps pr prev_jd next_jd clog"
  have 1: "length (ref_calls ?r) = length clog + 20" by (rule refine_calls)
  have 2: "high ?r - low ?r = (next_jd - prev_jd) / 2 ^ 20"
    unfolding refine_def
    using refine_loop_width[where n = 20 and
        r = "\<lparr>low = prev_jd, high = next_jd, found_jd = next_jd, ref_calls = clog\<rparr>"]
    by simp
  have 3: "found_jd ?r = high ?r" by (rule refine_found_high)
  have 4: "prev_jd < found_jd ?r \<and> found_jd ?r \<le> next_jd"
    using assms(1) by (rule refine_progress)
  have 5: "low ?r < c \<and> c \<le> found_jd ?r \<and> found_jd ?r - c < (next_jd - prev_jd) / 2 ^ 20"
    if c: "prev_jd < c \<and> c \<le> next_jd \<and>
          (\<forall>t. prev_jd < t \<and> t \<le> next_jd \<longrightarrow>
             (sign_at swe p t, retro_at swe p t)
               = (if t < c then (ps, pr) else (sign_at swe p next_jd, retro_at swe p next_jd)))"
    for c
  proof -
    have "\<forall>t. prev_jd < t \<and> t \<le> next_jd \<longrightarrow> (matches_at swe p ?sc ?mc ps pr t \<longleftrightarrow> t < c)"
    proof (intro allI impI)
      fix t assume t: "prev_jd < t \<and> t \<le> next_jd"
      with c have st: "(sign_at swe p t, retro_at swe p t)
               = (if t < c then (ps, pr) else (sign_at swe p next_jd, retro_at swe p next_jd))"
        by blast
      show "matches_at swe p ?sc ?mc ps pr t \<longleftrightarrow> t < c"
      proof (cases "t < c")
        case True
        with st show ?thesis by (simp add: matches_at_iff)
      next
        case False
        with st assms(2) show ?thesis by (auto simp add: matches_at_iff)
      qed
    qed
    with c show ?thesis by (intro refine_converges) simp_all
  qed
  show ?thesis unfolding Let_def using 1 2 3 4 5 by blast
qed

theorem refine_bracket_precision_witness:
  "(0::real) < 1/4 \<and> sign_at one_change SUN (1/4) = 2 \<and>
   length (ref_calls (refine one_change SUN (sign_at one_change SUN (1/4) \<noteq> 1)
        (retro_at one_change SUN (1/4) \<noteq> False) 1 False 0 (1/4) [])) = length ([] :: call_log) + 20 \<and>
   1/8 \<le> found_jd (refine one_change SUN (sign_at one_change SUN (1/4) \<noteq> 1)
        (retro_at one_change SUN (1/4) \<noteq> False) 1 False 0 (1/4) []) \<and>
   found_jd (refine one_change SUN (sign_at one_change SUN (1/4) \<noteq> 1)
        (retro_at one_change SUN (1/4) \<noteq> False) 1 False 0 (1/4) []) - 1/8 < (1/4 - 0) / 2 ^ 20"
proof -
  have h1: "(0::real) < 1/4" by simp
  have h2: "sign_at one_change SUN (1/4) \<noteq> 1 \<or> retro_at one_change SUN (1/4) \<noteq> False"
    by (simp add: sample_defs one_change_def)
  have hc: "(0::real) < 1/8 \<and> (1/8::real) \<le> 1/4 \<and>
     (\<forall>t. 0 < t \<and> t \<le> 1/4 \<longrightarrow>
        (sign_at one_change SUN t, retro_at one_change SUN t)
          = (if t < 1/8 then (1, False)
             else (sign_at one_change SUN (1/4), retro_at one_change SUN (1/4))))"
    by (simp add: sample_defs one_change_def)
  have v: "sign_at one_change SUN (1/4) = 2"
    by (simp add: sample_defs one_change_def)
  from refine_bracket_precision[OF h1 h2, of "[]"] hc h1 v
  show ?thesis unfolding Let_def by blast
qed

subsection \<open>C6: the events cover the window\<close>

text \<open>
  C6: for every body and every window with \<open>window_start < window_end\<close> the returned list
  is not empty, its first event is at \<open>window_start\<close> with the state sampled there, every
  event time lies in the window, and the spans from each event to the next (the next
  excluded), with the last span running to \<open>window_end\<close> (included), cover the window
  exactly: every instant of the window lies in exactly one span, and every span lies in
  the window.
\<close>

theorem events_cover_window:
  assumes "start_jd < end_jd"
  shows "let evs = fst (find_events swe p start_jd end_jd) in
     evs \<noteq> [] \<and>
     jd (hd evs) = start_jd \<and>
     sign (hd evs) = sign_at swe p start_jd \<and>
     retro (hd evs) = retro_at swe p start_jd \<and>
     (\<forall>e \<in> set evs. start_jd \<le> jd e \<and> jd e \<le> end_jd) \<and>
     (\<forall>t. start_jd \<le> t \<and> t \<le> end_jd \<longrightarrow>
        (\<exists>!i. i < length evs \<and> jd (evs ! i) \<le> t \<and>
               (if Suc i < length evs then t < jd (evs ! Suc i) else t \<le> end_jd))) \<and>
     (\<forall>i t. i < length evs \<and> jd (evs ! i) \<le> t \<and>
            (if Suc i < length evs then t < jd (evs ! Suc i) else t \<le> end_jd)
        \<longrightarrow> start_jd \<le> t \<and> t \<le> end_jd)"
proof -
  let ?evs = "fst (find_events swe p start_jd end_jd)"
  let ?ts = "map jd ?evs"
  have inv: "scan_inv swe p start_jd end_jd (scan_loop swe p end_jd (initial_state swe p start_jd))"
    by (rule find_events_inv)
  have ev: "?evs = events (scan_loop swe p end_jd (initial_state swe p start_jd))"
    by (simp add: find_events_eq)
  have ne: "?evs \<noteq> []" and hd: "jd (hd ?evs) = start_jd"
    and srt: "sorted_wrt (<) ?ts"
    and smp: "\<forall>e \<in> set ?evs. sign e = sign_at swe p (jd e) \<and> retro e = retro_at swe p (jd e)"
    using inv unfolding ev scan_inv_def by simp_all
  have hdin: "hd ?evs \<in> set ?evs" using ne by simp
  have st: "sign (hd ?evs) = sign_at swe p start_jd" "retro (hd ?evs) = retro_at swe p start_jd"
    using smp hdin hd by auto
  have tm: "\<forall>e \<in> set ?evs. start_jd \<le> jd e \<and> jd e \<le> end_jd"
    using find_events_times[of _ swe p start_jd end_jd] assms by simp
  have tne: "?ts \<noteq> []" and thd: "hd ?ts = start_jd" using ne hd by (simp_all add: hd_map)
  have tlast: "last ?ts \<le> end_jd" using tm ne by (simp add: last_map)
  have cov: "\<exists>!i. i < length ?evs \<and> jd (?evs ! i) \<le> t \<and>
               (if Suc i < length ?evs then t < jd (?evs ! Suc i) else t \<le> end_jd)"
    if t: "start_jd \<le> t \<and> t \<le> end_jd" for t
  proof -
    have "\<exists>!i. i < length ?ts \<and> ?ts ! i \<le> t \<and> (if Suc i < length ?ts then t < ?ts ! Suc i else t \<le> end_jd)"
      using tne srt t thd by (intro span_partition) simp_all
    moreover have "(i < length ?ts \<and> ?ts ! i \<le> t \<and> (if Suc i < length ?ts then t < ?ts ! Suc i else t \<le> end_jd))
       = (i < length ?evs \<and> jd (?evs ! i) \<le> t \<and>
               (if Suc i < length ?evs then t < jd (?evs ! Suc i) else t \<le> end_jd))" for i
      by auto
    ultimately show ?thesis by simp
  qed
  have ins: "start_jd \<le> t \<and> t \<le> end_jd"
    if h: "i < length ?evs \<and> jd (?evs ! i) \<le> t \<and>
            (if Suc i < length ?evs then t < jd (?evs ! Suc i) else t \<le> end_jd)" for i t
  proof -
    have "hd ?ts \<le> t \<and> t \<le> end_jd"
    proof (rule span_inside[OF srt _ _ tlast])
      show "i < length ?ts" using h by simp
      show "?ts ! i \<le> t" using h by simp
      show "if Suc i < length ?ts then t < ?ts ! Suc i else t \<le> end_jd"
        using h by (auto split: if_splits)
    qed
    then show ?thesis using thd by simp
  qed
  show ?thesis
    unfolding Let_def using ne hd st tm cov ins by blast
qed

theorem events_cover_window_witness:
  "(0::real) < 1/4 \<and>
   fst (find_events one_change SUN 0 (1/4)) \<noteq> [] \<and>
   jd (hd (fst (find_events one_change SUN 0 (1/4)))) = 0 \<and>
   (\<exists>!i. i < length (fst (find_events one_change SUN 0 (1/4))) \<and>
          jd (fst (find_events one_change SUN 0 (1/4)) ! i) \<le> 3/16 \<and>
          (if Suc i < length (fst (find_events one_change SUN 0 (1/4)))
           then 3/16 < jd (fst (find_events one_change SUN 0 (1/4)) ! Suc i)
           else 3/16 \<le> (1/4::real)))"
proof -
  have h: "(0::real) < 1/4" by simp
  have t: "(0::real) \<le> 3/16 \<and> (3/16::real) \<le> 1/4" by simp
  from events_cover_window[OF h, of one_change SUN] t h
  show ?thesis unfolding Let_def by blast
qed

subsection \<open>C7: a window of a single instant\<close>

text \<open>
  C7: when \<open>window_end\<close> equals \<open>window_start\<close> the loop body never runs, the only ephemeris
  call is the initial one, and the result is exactly one event, at \<open>window_start\<close>, with the
  state and speed sampled there.
\<close>

theorem find_events_single_instant:
  "find_events swe p start_jd start_jd =
     ([\<lparr>jd = start_jd, sign = sign_at swe p start_jd, retro = retro_at swe p start_jd,
         speed = speed_at swe p start_jd\<rparr>],
      [(start_jd, queried_body p)])"
  by (rule find_events_empty_window) simp

subsection \<open>C8: three samples classified\<close>

text \<open>
  C8: a sample with longitude 45 and speed 1 has sign 2 and is direct; longitude 359 and
  speed -0.5 has sign 12 and is retrograde; longitude 0 and speed 0.1 has sign 1 and is
  direct. The sign is \<^verbatim>\<open>get_sign\<close> of the longitude, the flag is the third component of
  \<^verbatim>\<open>get_planet_data\<close>.
\<close>

theorem classifier_examples:
  "fst (get_planet_data (\<lambda>t b. (45, 1)) at_jd SUN clog) = (45, 1, False) \<and>
   get_sign 45 = 2 \<and>
   fst (get_planet_data (\<lambda>t b. (359, - 0.5)) at_jd SUN clog) = (359, - 0.5, True) \<and>
   get_sign 359 = 12 \<and>
   fst (get_planet_data (\<lambda>t b. (0, 0.1)) at_jd SUN clog) = (0, 0.1, False) \<and>
   get_sign 0 = 1"
  by (simp add: get_planet_data_def planet_data_def get_sign_def py_int_def)

subsection \<open>C9: determinism\<close>

text \<open>
  C9: two runs of \<^verbatim>\<open>find_events\<close> on the same body and window, against an ephemeris that
  answers the same in both runs, return the same list: the same length and, at every
  position, the same time, sign, retrograde flag and speed. The two runs are given two
  ephemerides that need only agree, for the queried body, at \<open>window_start\<close> and at the
  instants of the window; the call logs of the two runs are equal as well.
\<close>

theorem find_events_deterministic:
  assumes "swe1 start_jd (queried_body p) = swe2 start_jd (queried_body p)"
    and "\<forall>t. start_jd < t \<and> t \<le> end_jd \<longrightarrow> swe1 t (queried_body p) = swe2 t (queried_body p)"
  shows "length (fst (find_events swe1 p start_jd end_jd))
           = length (fst (find_events swe2 p start_jd end_jd)) \<and>
         (\<forall>i < length (fst (find_events swe1 p start_jd end_jd)).
            jd (fst (find_events swe1 p start_jd end_jd) ! i)
              = jd (fst (find_events swe2 p start_jd end_jd) ! i) \<and>
            sign (fst (find_events swe1 p start_jd end_jd) ! i)
              = sign (fst (find_events swe2 p start_jd end_jd) ! i) \<and>
            retro (fst (find_events swe1 p start_jd end_jd) ! i)
              = retro (fst (find_events swe2 p start_jd end_jd) ! i) \<and>
            speed (fst (find_events swe1 p start_jd end_jd) ! i)
              = speed (fst (find_events swe2 p start_jd end_jd) ! i)) \<and>
         snd (find_events swe1 p start_jd end_jd) = snd (find_events swe2 p start_jd end_jd)"
proof -
  have "find_events swe1 p start_jd end_jd = find_events swe2 p start_jd end_jd"
    using assms by (rule find_events_cong)
  then show ?thesis by simp
qed

theorem find_events_deterministic_witness:
  "one_change 0 MOON \<noteq> sun_only 0 MOON \<and>
   Suc 0 < length (fst (find_events one_change SUN 0 (1/4))) \<and>
   length (fst (find_events one_change SUN 0 (1/4)))
     = length (fst (find_events sun_only SUN 0 (1/4))) \<and>
   jd (fst (find_events one_change SUN 0 (1/4)) ! Suc 0)
     = jd (fst (find_events sun_only SUN 0 (1/4)) ! Suc 0) \<and>
   sign (fst (find_events one_change SUN 0 (1/4)) ! Suc 0)
     = sign (fst (find_events sun_only SUN 0 (1/4)) ! Suc 0)"
proof -
  have a: "one_change 0 (queried_body SUN) = sun_only 0 (queried_body SUN)"
    by (simp add: sun_only_def queried_body_def)
  have b: "\<forall>t. 0 < t \<and> t \<le> 1/4 \<longrightarrow> one_change t (queried_body SUN) = sun_only t (queried_body SUN)"
    by (simp add: sun_only_def queried_body_def)
  have l: "Suc 0 < length (fst (find_events one_change SUN 0 (1/4)))"
    by (simp add: one_change_run)
  have d: "one_change 0 MOON \<noteq> sun_only 0 MOON"
    by (simp add: sun_only_def one_change_def)
  from find_events_deterministic[of one_change 0 SUN sun_only "1/4", OF a b] l d
  show ?thesis by blast
qed

subsection \<open>C10: Ketu\<close>

text \<open>
  C10: at every instant the longitude returned for Ketu is the mean node's longitude plus
  180, reduced modulo 360, so it lies in \<open>[0, 360)\<close>; the speed returned for Ketu is the mean
  node's speed and the flag is (that speed < 0), so Ketu and Rahu have the same motion
  state. The one ephemeris call made for Ketu asks for the mean node.
\<close>

theorem ketu_opposite_rahu:
  "planet_data swe at_jd KETU =
     (py_mod (fst (swe at_jd MEAN_NODE) + 180) 360, snd (swe at_jd MEAN_NODE),
      snd (swe at_jd MEAN_NODE) < 0) \<and>
   0 \<le> fst (planet_data swe at_jd KETU) \<and> fst (planet_data swe at_jd KETU) < 360 \<and>
   speed_at swe KETU at_jd = speed_at swe MEAN_NODE at_jd \<and>
   retro_at swe KETU at_jd = retro_at swe MEAN_NODE at_jd \<and>
   retro_at swe MEAN_NODE at_jd = (speed_at swe MEAN_NODE at_jd < 0) \<and>
   snd (get_planet_data swe at_jd KETU clog) = clog @ [(at_jd, MEAN_NODE)]"
proof -
  obtain l s where sw: "swe at_jd MEAN_NODE = (l, s)" by (cases "swe at_jd MEAN_NODE")
  have "0 \<le> py_mod x 360 \<and> py_mod x 360 < 360" for x
  proof -
    have "of_int \<lfloor>x / 360\<rfloor> \<le> x / 360" "x / 360 < of_int \<lfloor>x / 360\<rfloor> + 1"
      by linarith+
    then show ?thesis by (simp add: py_mod_def field_simps)
  qed
  then show ?thesis
    by (simp add: sw planet_data_def speed_at_def retro_at_def get_planet_data_def queried_body_def)
qed

end
